theory Spec2Isabelle
  imports Complex_Main
begin

section \<open>Signal-analysis core of the Streamlit pages\<close>

text \<open>
  The pages \<^verbatim>\<open>6_Outliers_and_LOF\<close> and \<^verbatim>\<open>3_STL_and_Spectrogram\<close> hold the numerical
  code. A Python float and a NumPy \<open>float64\<close> is a double: it is modelled as the real
  number it denotes, and every arithmetic operation of the pages is followed by the
  rounding \<open>fl\<close> to the nearest double. A series that may hold missing entries (NaN
  after \<^verbatim>\<open>pd.to_numeric(..., errors="coerce")\<close>) is a \<open>real option list\<close>.
\<close>

subsection \<open>Double-precision rounding\<close>

text \<open>
  IEEE 754 binary64, round to nearest, ties to even: a finite double is an integer multiple
  of \<open>2 ^ (e - 52)\<close>, of magnitude at most \<open>2 ^ 53\<close>, where \<open>e\<close> is the exponent of its
  binade and at least \<open>- 1022\<close> (below that the spacing stays \<open>2 ^ (- 1074)\<close>, the
  subnormal numbers). Infinities and NaN are not represented: the results of the pages
  are taken within the finite range.
\<close>

definition round_even :: "real \<Rightarrow> int" where
  "round_even r = (let f = \<lfloor>r\<rfloor> in
     if r - of_int f < 1 / 2 then f
     else if 1 / 2 < r - of_int f then f + 1
     else if even f then f else f + 1)"

definition expo :: "real \<Rightarrow> int" where
  "expo x = max \<lfloor>log 2 \<bar>x\<bar>\<rfloor> (- 1022)"

definition ulp :: "real \<Rightarrow> real" where
  "ulp x = 2 powr (of_int (expo x) - 52)"

definition fl :: "real \<Rightarrow> real" where
  "fl x = (if x = 0 then 0 else of_int (round_even (x / ulp x)) * ulp x)"

subsection \<open>Python helpers\<close>

text \<open>Python's \<^verbatim>\<open>int(r)\<close> on a float truncates toward zero.\<close>

definition py_int :: "real \<Rightarrow> int" where
  "py_int r = (if 0 \<le> r then \<lfloor>r\<rfloor> else \<lceil>r\<rceil>)"

text \<open>
  \<^verbatim>\<open>np.median\<close> on an array of doubles: the middle element of the sorted array; for an
  even length the mean of the two middle elements, that is their rounded sum divided by
  two; NaN (here \<open>None\<close>) on an empty array.
\<close>

definition median :: "real list \<Rightarrow> real option" where
  "median xs = (let ys = sort xs; n = length ys in
     if n = 0 then None
     else if odd n then Some (ys ! (n div 2))
     else Some (fl (fl (ys ! (n div 2 - 1) + ys ! (n div 2)) / 2)))"

subsection \<open>Robust SPC bounds (SPC tab, lines 63-67)\<close>

text \<open>
  \<^verbatim>\<open>
  med = np.median(satv)
  mad = np.median(np.abs(satv - med)) or 1e-9
  sigma = 1.4826 * mad
  lo, hi = med - k_sigma * sigma, med + k_sigma * sigma
  out = (satv < lo) | (satv > hi)
  \<close>
  The array and the slider value hold doubles (\<open>map fl satv\<close>, \<open>fl k_sigma\<close>), the
  literals are the doubles nearest to them, and each subtraction, product and sum is
  rounded. Python's \<^verbatim>\<open>or\<close> takes the right operand exactly when the left one is zero.
  On an empty array every statistic is NaN and \<open>out\<close> is empty; the model returns
  \<open>None\<close> for the statistics there.
\<close>

record spc =
  med :: real
  mad :: real
  sigma :: real
  lo :: real
  hi :: real
  out :: "bool list"

definition spc_bounds :: "real list \<Rightarrow> real \<Rightarrow> spc option" where
  "spc_bounds satv k_sigma =
     (let xs = map fl satv; k = fl k_sigma in
      case median xs of
        None \<Rightarrow> None
      | Some m \<Rightarrow>
         (case median (map (\<lambda>v. \<bar>fl (v - m)\<bar>) xs) of
            None \<Rightarrow> None
          | Some d \<Rightarrow>
             (let mad' = (if d = 0 then fl (1 / 10 ^ 9) else d);
                  sigma' = fl (fl 1.4826 * mad');
                  lo' = fl (m - fl (k * sigma'));
                  hi' = fl (m + fl (k * sigma'))
              in Some \<lparr>med = m, mad = mad', sigma = sigma', lo = lo', hi = hi',
                        out = map (\<lambda>v. v < lo' \<or> v > hi') xs\<rparr>)))"

text \<open>\<^verbatim>\<open>int(out.sum())\<close>: the number of flagged samples.\<close>

definition flaggedCount :: "real list \<Rightarrow> real \<Rightarrow> nat" where
  "flaggedCount satv k_sigma =
     (case spc_bounds satv k_sigma of
        None \<Rightarrow> 0
      | Some r \<Rightarrow> length (filter (\<lambda>b. b) (out r)))"

subsection \<open>LOF neighbour count (LOF tab, line 93)\<close>

text \<open>
  \<^verbatim>\<open>nn = min(max(5, int(n_neighbors)), max(5, len(z) - 1))\<close>
  The widget returns an integer; \<open>len_z\<close> is the number of samples. The line has no
  check and no error of its own; the value goes to the estimator.
\<close>

definition nn :: "int \<Rightarrow> nat \<Rightarrow> int" where
  "nn n_neighbors len_z = min (max 5 n_neighbors) (max 5 (int len_z - 1))"

subsection \<open>Spectrogram arguments (Spectrogram tab, lines 109-114)\<close>

text \<open>
  \<^verbatim>\<open>
  if s2.empty: st.info(...)
  else:
      nperseg = int(window_len)
      noverlap = int(nperseg * float(overlap))
      f, tt, Sxx = spectrogram(s2.values, fs=1.0, nperseg=nperseg, noverlap=noverlap, ...)
  \<close>
  The product is a double product: the integer is converted to a double, the slider
  value is a double, and the result is rounded before \<^verbatim>\<open>int\<close> truncates it. The
  result of the model is the pair \<open>(nperseg, noverlap)\<close> handed to the library routine,
  or \<open>None\<close> when the page computes nothing.
\<close>

definition spectrogram_args :: "real list \<Rightarrow> int \<Rightarrow> real \<Rightarrow> (int \<times> int) option" where
  "spectrogram_args s2 window_len overlap =
     (if s2 = [] then None
      else (let nperseg = window_len;
                noverlap = py_int (fl (fl (of_int nperseg) * fl overlap))
            in Some (nperseg, noverlap)))"

subsection \<open>SATV filter (SPC tab, lines 58-62)\<close>

text \<open>
  \<^verbatim>\<open>
  x = dct(s, norm="ortho")
  cutoff = int(len(x) * dct_keep_frac)
  x[:max(1, cutoff)] = 0.0
  satv = idct(x, norm="ortho")
  \<close>
  The product in the second line is a double product, rounded before \<^verbatim>\<open>int\<close>
  truncates it.
\<close>

definition cutoff :: "real list \<Rightarrow> real \<Rightarrow> int" where
  "cutoff x dct_keep_frac = py_int (fl (fl (real (length x)) * fl dct_keep_frac))"

text \<open>
  The slice assignment \<^verbatim>\<open>x[:m] = 0.0\<close> with \<open>m \<ge> 0\<close>: the first \<open>m\<close> entries
  (all of them when \<open>m\<close> exceeds the length) become zero, the others stay.
\<close>

definition zero_prefix :: "nat \<Rightarrow> real list \<Rightarrow> real list" where
  "zero_prefix m x = replicate (min m (length x)) 0 @ drop m x"

text \<open>
  The two transforms are scipy's double-precision routines, whose code is not part of the
  pages. The filter takes them as the parameters \<open>dct_lib\<close> and \<open>idct_lib\<close>; the library
  rejects an empty array (ValueError), which is \<open>None\<close> here.
\<close>

definition satv_lib ::
  "(real list \<Rightarrow> real list) \<Rightarrow> (real list \<Rightarrow> real list) \<Rightarrow> real list \<Rightarrow> real
     \<Rightarrow> real list option" where
  "satv_lib dct_lib idct_lib s dct_keep_frac =
     (if s = [] then None
      else (let x = dct_lib s;
                c = cutoff x dct_keep_frac;
                x' = zero_prefix (nat (max 1 c)) x
            in Some (idct_lib x')))"

text \<open>
  The transforms that the routines compute up to rounding: with \<^verbatim>\<open>norm="ortho"\<close>,
  \<^verbatim>\<open>dct\<close> is the orthonormal DCT of type 2,
  \<open>y[k] = f * 2 * (\<Sum>n<N. x[n] * cos (pi * k * (2 * n + 1) / (2 * N)))\<close> with
  \<open>f = sqrt (1 / (4 * N))\<close> for \<open>k = 0\<close> and \<open>f = sqrt (1 / (2 * N))\<close> otherwise, and
  \<^verbatim>\<open>idct\<close> is the orthonormal DCT of type 3. Both return a new array.
\<close>

definition dct :: "real list \<Rightarrow> real list" where
  "dct x = (let N = length x in
     map (\<lambda>k. (if k = 0 then sqrt (1 / (4 * real N)) else sqrt (1 / (2 * real N))) * 2 *
               (\<Sum>n<N. x ! n * cos (pi * real k * (2 * real n + 1) / (2 * real N))))
         [0..<N])"

definition idct :: "real list \<Rightarrow> real list" where
  "idct y = (let N = length y in
     map (\<lambda>n. y ! 0 / sqrt (real N) + sqrt (2 / real N) *
               (\<Sum>k = 1..<N. y ! k * cos (pi * real k * (2 * real n + 1) / (2 * real N))))
         [0..<N])"

definition satv_coeffs :: "real list \<Rightarrow> real \<Rightarrow> real list" where
  "satv_coeffs s dct_keep_frac =
     (let x = dct s in zero_prefix (nat (max 1 (cutoff x dct_keep_frac))) x)"

definition satv_filter :: "real list \<Rightarrow> real \<Rightarrow> real list option" where
  "satv_filter s dct_keep_frac =
     (if s = [] then None else Some (idct (satv_coeffs s dct_keep_frac)))"

subsection \<open>Arrays in memory\<close>

text \<open>
  The one in-place assignment of the page, \<^verbatim>\<open>x[:max(1, cutoff)] = 0.0\<close>, is modelled on
  an explicit store: pandas columns (which may hold missing values) and NumPy float arrays,
  each addressed by its position. A library call that returns a new object appends a cell.
\<close>

record store =
  series :: "real option list list"
  arrays :: "real list list"

definition new_array :: "store \<Rightarrow> real list \<Rightarrow> store \<times> nat" where
  "new_array st a = (st\<lparr>arrays := arrays st @ [a]\<rparr>, length (arrays st))"

text \<open>
  Lines 59-62 on the store: \<open>s\<close> is the address of the temperature array. The result is
  the new store and the address of \<open>satv\<close>; \<open>None\<close> stands for a dangling address or
  the library's rejection of an empty array.
\<close>

definition satv_run :: "store \<Rightarrow> nat \<Rightarrow> real \<Rightarrow> (store \<times> nat) option" where
  "satv_run st s dct_keep_frac =
     (if length (arrays st) \<le> s \<or> arrays st ! s = [] then None
      else (let (st1, x) = new_array st (dct (arrays st ! s));
                c = cutoff (arrays st1 ! x) dct_keep_frac;
                st2 = st1\<lparr>arrays := (arrays st1)[x := zero_prefix (nat (max 1 c)) (arrays st1 ! x)]\<rparr>;
                (st3, satv) = new_array st2 (idct (arrays st2 ! x))
            in Some (st3, satv)))"

text \<open>Lines 58-67: the SATV filter followed by the SPC statistics, which only read \<open>satv\<close>.\<close>

definition satv_spc_run :: "store \<Rightarrow> nat \<Rightarrow> real \<Rightarrow> real \<Rightarrow> (store \<times> nat \<times> spc option) option" where
  "satv_spc_run st s dct_keep_frac k_sigma =
     (case satv_run st s dct_keep_frac of
        None \<Rightarrow> None
      | Some (st', satv) \<Rightarrow> Some (st', satv, spc_bounds (arrays st' ! satv) k_sigma))"

subsection \<open>LOF pipeline (LOF tab, lines 92-96)\<close>

text \<open>
  \<^verbatim>\<open>
  z = pd.to_numeric(wx2["precipitation"], errors="coerce").fillna(0.0).to_numpy().reshape(-1, 1)
  nn = min(max(5, int(n_neighbors)), max(5, len(z) - 1))
  lof = LocalOutlierFactor(n_neighbors=nn, contamination=float(contamination))
  labels = lof.fit_predict(z)
  out2 = labels == -1
  \<close>
  \<^verbatim>\<open>fillna\<close> returns a new series in which every missing entry is the fill value.
  The estimator belongs to scikit-learn; it is the parameter \<open>fit_predict\<close>, which maps
  the neighbour count, the contamination and the feature array to the labels, or to
  \<open>None\<close> when the library raises.
\<close>

definition fillna :: "real \<Rightarrow> real option list \<Rightarrow> real list" where
  "fillna v xs = map (\<lambda>x. case x of None \<Rightarrow> v | Some r \<Rightarrow> r) xs"

definition lof_detect ::
  "(int \<Rightarrow> real \<Rightarrow> real list \<Rightarrow> int list option) \<Rightarrow> real option list \<Rightarrow> int \<Rightarrow> real
     \<Rightarrow> bool list option" where
  "lof_detect fit_predict precipitation n_neighbors contamination =
     (let z = fillna 0 precipitation;
          nn' = nn n_neighbors (length z)
      in case fit_predict nn' contamination z of
           None \<Rightarrow> None
         | Some labels \<Rightarrow> Some (map (\<lambda>l. l = - 1) labels))"

text \<open>The same lines on the store: \<open>col\<close> is the address of the precipitation column.\<close>

definition lof_run ::
  "(int \<Rightarrow> real \<Rightarrow> real list \<Rightarrow> int list option) \<Rightarrow> store \<Rightarrow> nat \<Rightarrow> int \<Rightarrow> real
     \<Rightarrow> (store \<times> bool list) option" where
  "lof_run fit_predict st col n_neighbors contamination =
     (if length (series st) \<le> col then None
      else (let (st1, z) = new_array st (fillna 0 (series st ! col));
                nn' = nn n_neighbors (length (arrays st1 ! z))
            in case fit_predict nn' contamination (arrays st1 ! z) of
                 None \<Rightarrow> None
               | Some labels \<Rightarrow> Some (st1, map (\<lambda>l. l = - 1) labels)))"

section \<open>Properties\<close>

subsection \<open>Rounding to the nearest double\<close>

text \<open>Rounding to an integer fixes integers, is monotone and commutes with negation.\<close>

lemma round_even_of_int [simp]: "round_even (of_int z) = z"
  by (simp add: round_even_def)

lemma round_even_bounds: "\<lfloor>r\<rfloor> \<le> round_even r" "round_even r \<le> \<lfloor>r\<rfloor> + 1"
  by (simp_all add: round_even_def Let_def)

lemma round_even_mono:
  assumes "r \<le> s"
  shows "round_even r \<le> round_even s"
proof (cases "\<lfloor>r\<rfloor> = \<lfloor>s\<rfloor>")
  case True
  then show ?thesis using assms by (auto simp: round_even_def Let_def)
next
  case False
  have "\<lfloor>r\<rfloor> \<le> \<lfloor>s\<rfloor>" using assms by (rule floor_mono)
  then have "\<lfloor>r\<rfloor> + 1 \<le> \<lfloor>s\<rfloor>" using False by simp
  then show ?thesis using round_even_bounds(2) [of r] round_even_bounds(1) [of s] by linarith
qed

lemma round_even_minus: "round_even (- r) = - round_even r"
proof (cases "r = of_int \<lfloor>r\<rfloor>")
  case True
  then obtain z where "r = of_int z" ..
  then have "- r = of_int (- z)" by simp
  then show ?thesis using \<open>r = of_int z\<close> by (simp only: round_even_of_int)
next
  case False
  then have c: "\<lceil>r\<rceil> = \<lfloor>r\<rfloor> + 1" by (simp add: ceiling_altdef)
  have f: "\<lfloor>- r\<rfloor> = - \<lfloor>r\<rfloor> - 1" using c by (simp add: floor_minus)
  have lt: "of_int \<lfloor>r\<rfloor> < r" using False by (metis floor_less_cancel floor_of_int le_less of_int_floor_le)
  show ?thesis
    unfolding round_even_def Let_def f using lt by (auto simp: algebra_simps)
qed

text \<open>Rounding to a double keeps the sign and the order.\<close>

lemma ulp_pos: "0 < ulp x"
  by (simp add: ulp_def)

lemma expo_minus: "expo (- x) = expo x"
  by (simp add: expo_def)

lemma ulp_minus: "ulp (- x) = ulp x"
  by (simp add: ulp_def expo_minus)

lemma fl_zero: "fl 0 = 0"
  by (simp add: fl_def)

lemma fl_minus: "fl (- x) = - fl x"
  by (simp add: fl_def ulp_minus round_even_minus)

lemma round_even_zero: "round_even 0 = 0"
  by (simp add: round_even_def)

lemma fl_nonneg: "0 \<le> x \<Longrightarrow> 0 \<le> fl x"
proof -
  assume x: "0 \<le> x"
  have "0 \<le> x / ulp x" using x ulp_pos [of x] by simp
  then have "round_even 0 \<le> round_even (x / ulp x)" by (rule round_even_mono)
  then have "0 \<le> round_even (x / ulp x)" by (simp only: round_even_zero)
  then show ?thesis using ulp_pos [of x] by (simp add: fl_def)
qed

lemma expo_mono:
  assumes "0 < x" "x \<le> y"
  shows "expo x \<le> expo y"
proof -
  have "log 2 x \<le> log 2 y" using assms by simp
  then have "\<lfloor>log 2 x\<rfloor> \<le> \<lfloor>log 2 y\<rfloor>" by (rule floor_mono)
  then show ?thesis using assms by (simp add: expo_def)
qed

lemma below_next_binade:
  assumes "0 < x"
  shows "x < 2 powr (of_int (expo x) + 1)"
proof -
  have "log 2 x < of_int \<lfloor>log 2 x\<rfloor> + 1" by linarith
  also have "\<dots> \<le> of_int (expo x) + 1" using assms by (simp add: expo_def)
  finally have "2 powr log 2 x < 2 powr (of_int (expo x) + 1)" by simp
  then show ?thesis using assms by simp
qed

lemma above_binade:
  assumes "0 < x" "- 1022 < expo x"
  shows "2 powr of_int (expo x) \<le> x"
proof -
  have "expo x = \<lfloor>log 2 x\<rfloor>" using assms by (auto simp: expo_def max_def split: if_splits)
  then have "of_int (expo x) \<le> log 2 x" by simp
  then have "2 powr of_int (expo x) \<le> 2 powr log 2 x" by simp
  then show ?thesis using assms by simp
qed

lemma two_powr_53: "(2::real) powr 53 = of_int (2 ^ 53)"
  by simp

lemma two_powr_52: "(2::real) powr 52 = of_int (2 ^ 52)"
  by simp

lemma scale_53: "of_int (2 ^ 53) * ulp x = 2 powr (of_int (expo x) + 1)"
proof -
  have "of_int (2 ^ 53) * ulp x = 2 powr 53 * 2 powr (of_int (expo x) - 52)"
    by (simp only: two_powr_53 ulp_def)
  also have "\<dots> = 2 powr (53 + (of_int (expo x) - 52))" by (simp only: powr_add)
  also have "\<dots> = 2 powr (of_int (expo x) + 1)"
    by (rule arg_cong [where f = "\<lambda>t. 2 powr t"]) simp
  finally show ?thesis .
qed

lemma scale_52: "of_int (2 ^ 52) * ulp x = 2 powr of_int (expo x)"
proof -
  have "of_int (2 ^ 52) * ulp x = 2 powr 52 * 2 powr (of_int (expo x) - 52)"
    by (simp only: two_powr_52 ulp_def)
  also have "\<dots> = 2 powr (52 + (of_int (expo x) - 52))" by (simp only: powr_add)
  also have "\<dots> = 2 powr of_int (expo x)"
    by (rule arg_cong [where f = "\<lambda>t. 2 powr t"]) simp
  finally show ?thesis .
qed

lemma fl_le_next_binade:
  assumes "0 < x"
  shows "fl x \<le> 2 powr (of_int (expo x) + 1)"
proof -
  have "x / ulp x < 2 powr (of_int (expo x) + 1) / ulp x"
    using below_next_binade [OF assms] ulp_pos [of x] by (simp add: divide_strict_right_mono)
  also have "2 powr (of_int (expo x) + 1) / ulp x = 2 powr 53"
    unfolding ulp_def by (simp add: powr_diff [symmetric])
  finally have "x / ulp x \<le> of_int (2 ^ 53)" unfolding two_powr_53 by simp
  then have "round_even (x / ulp x) \<le> round_even (of_int (2 ^ 53))" by (rule round_even_mono)
  then have "round_even (x / ulp x) \<le> 2 ^ 53" by (simp only: round_even_of_int)
  then have "of_int (round_even (x / ulp x)) \<le> (of_int (2 ^ 53) :: real)" by (simp only: of_int_le_iff)
  then have "of_int (round_even (x / ulp x)) * ulp x \<le> of_int (2 ^ 53) * ulp x"
    using ulp_pos [of x] by (simp only: mult_le_cancel_right_pos)
  also have "of_int (2 ^ 53) * ulp x = 2 powr (of_int (expo x) + 1)"
    by (rule scale_53)
  finally show ?thesis using assms by (simp add: fl_def)
qed

lemma fl_ge_binade:
  assumes "0 < x" "- 1022 < expo x"
  shows "2 powr of_int (expo x) \<le> fl x"
proof -
  have "2 powr of_int (expo x) / ulp x \<le> x / ulp x"
    using above_binade [OF assms] ulp_pos [of x] by (simp add: divide_right_mono)
  moreover have "2 powr of_int (expo x) / ulp x = 2 powr 52"
    unfolding ulp_def by (simp add: powr_diff [symmetric])
  ultimately have "of_int (2 ^ 52) \<le> x / ulp x" unfolding two_powr_52 by simp
  then have "round_even (of_int (2 ^ 52)) \<le> round_even (x / ulp x)" by (rule round_even_mono)
  then have "2 ^ 52 \<le> round_even (x / ulp x)" by (simp only: round_even_of_int)
  then have "(of_int (2 ^ 52) :: real) \<le> of_int (round_even (x / ulp x))" by (simp only: of_int_le_iff)
  then have "of_int (2 ^ 52) * ulp x \<le> of_int (round_even (x / ulp x)) * ulp x"
    using ulp_pos [of x] by (simp only: mult_le_cancel_right_pos)
  moreover have "of_int (2 ^ 52) * ulp x = 2 powr of_int (expo x)"
    by (rule scale_52)
  ultimately show ?thesis using assms by (simp add: fl_def)
qed

lemma fl_mono_pos:
  assumes "0 < x" "x \<le> y"
  shows "fl x \<le> fl y"
proof (cases "expo x = expo y")
  case True
  then have u: "ulp x = ulp y" by (simp add: ulp_def)
  have "x / ulp y \<le> y / ulp y" using assms(2) ulp_pos [of y] by (simp add: divide_right_mono)
  then have "round_even (x / ulp y) \<le> round_even (y / ulp y)" by (rule round_even_mono)
  then have "of_int (round_even (x / ulp y)) * ulp y \<le> of_int (round_even (y / ulp y)) * ulp y"
    using ulp_pos [of y] by simp
  then show ?thesis using assms by (simp add: fl_def u)
next
  case False
  have y: "0 < y" using assms by simp
  have "expo x \<le> expo y" using assms by (rule expo_mono)
  then have lt: "expo x < expo y" using False by simp
  have "- 1022 \<le> expo x" by (simp add: expo_def)
  then have big: "- 1022 < expo y" using lt by simp
  have "fl x \<le> 2 powr (of_int (expo x) + 1)" using assms(1) by (rule fl_le_next_binade)
  also have "\<dots> \<le> 2 powr of_int (expo y)" using lt by simp
  also have "\<dots> \<le> fl y" using y big by (rule fl_ge_binade)
  finally show ?thesis .
qed

lemma fl_mono:
  assumes "x \<le> y"
  shows "fl x \<le> fl y"
proof -
  consider "0 < x" | "x \<le> 0" "0 \<le> y" | "y < 0" by linarith
  then show ?thesis
  proof cases
    case 1
    then show ?thesis using assms by (rule fl_mono_pos)
  next
    case 2
    have "0 \<le> fl (- x)" using 2(1) by (intro fl_nonneg) simp
    then have "fl x \<le> 0" by (simp add: fl_minus)
    moreover have "0 \<le> fl y" using 2(2) by (rule fl_nonneg)
    ultimately show ?thesis by simp
  next
    case 3
    have "fl (- y) \<le> fl (- x)" using 3 assms by (intro fl_mono_pos) simp_all
    then show ?thesis by (simp add: fl_minus)
  qed
qed

text \<open>
  The value of \<open>fl\<close> in a known binade, and the integers of magnitude below
  \<open>2 ^ 53\<close>, which are doubles.
\<close>

lemma expo_eq:
  assumes "2 powr of_int e \<le> \<bar>x\<bar>" "\<bar>x\<bar> < 2 powr (of_int e + 1)" "- 1022 \<le> e"
  shows "expo x = e"
proof -
  have "0 < \<bar>x\<bar>" using assms(1) by (smt (verit) powr_gt_zero)
  then have "\<lfloor>log 2 \<bar>x\<bar>\<rfloor> = e"
    using assms(1,2) by (simp add: floor_log_eq_powr_iff)
  then show ?thesis using assms(3) by (simp add: expo_def)
qed

lemma fl_eval:
  assumes "2 powr of_int e \<le> \<bar>x\<bar>" "\<bar>x\<bar> < 2 powr (of_int e + 1)" "- 1022 \<le> e"
  shows "fl x = of_int (round_even (x / 2 powr (of_int e - 52))) * 2 powr (of_int e - 52)"
proof -
  have "x \<noteq> 0" using assms(1) by (smt (verit) powr_gt_zero)
  then show ?thesis by (simp add: fl_def ulp_def expo_eq [OF assms])
qed

lemma fl_of_int_pos:
  assumes "0 < n" "n < 2 ^ 53"
  shows "fl (of_int n) = of_int n"
proof -
  define x where "x = (of_int n :: real)"
  have x: "1 \<le> x" "x < 2 ^ 53" using assms by (simp_all add: x_def)
  have "0 \<le> log 2 x" using x(1) by simp
  then have lo: "0 \<le> \<lfloor>log 2 x\<rfloor>" by simp
  have "x < 2 powr 53" using x(2) by simp
  then have "log 2 x < 53" using x(1) log_less_iff [of 2 x 53] by simp
  then have hi: "\<lfloor>log 2 x\<rfloor> \<le> 52" by (simp add: floor_le_iff)
  define e where "e = expo x"
  have "\<bar>x\<bar> = x" using x(1) by simp
  then have "e = max \<lfloor>log 2 x\<rfloor> (- 1022)" by (simp add: e_def expo_def)
  then have e: "0 \<le> e" "e \<le> 52" using lo hi by linarith+
  define k where "k = nat (52 - e)"
  have "of_int e - 52 = - real k" using e by (simp add: k_def)
  then have u: "ulp x = inverse (2 ^ k)"
    by (simp add: ulp_def e_def [symmetric] powr_minus powr_realpow)
  have "x / ulp x = x * 2 ^ k" by (simp add: u divide_inverse)
  also have "\<dots> = of_int (n * 2 ^ k)" by (simp add: x_def)
  finally have q: "x / ulp x = of_int (n * 2 ^ k)" .
  have "round_even (x / ulp x) = n * 2 ^ k" unfolding q by (rule round_even_of_int)
  then have "of_int (round_even (x / ulp x)) * ulp x = of_int (n * 2 ^ k) * inverse (2 ^ k)"
    by (simp only: u)
  also have "\<dots> = x" by (simp add: x_def)
  finally have "of_int (round_even (x / ulp x)) * ulp x = x" .
  moreover have "x \<noteq> 0" using x(1) by simp
  ultimately show ?thesis unfolding x_def [symmetric] by (simp add: fl_def)
qed

lemma fl_of_int:
  assumes "\<bar>n\<bar> < 2 ^ 53"
  shows "fl (of_int n) = of_int n"
proof -
  consider "n = 0" | "0 < n" | "n < 0" by linarith
  then show ?thesis
  proof cases
    case 1
    then show ?thesis by (simp add: fl_zero)
  next
    case 2
    then show ?thesis using assms by (intro fl_of_int_pos) simp_all
  next
    case 3
    then have "fl (of_int (- n)) = of_int (- n)" using assms by (intro fl_of_int_pos) simp_all
    then show ?thesis by (simp add: fl_minus)
  qed
qed

lemma fl_between:
  assumes "0 \<le> x" "x \<le> 2 ^ 52"
  shows "of_int \<lfloor>x\<rfloor> \<le> fl x" and "fl x \<le> of_int \<lceil>x\<rceil>"
proof -
  have f: "0 \<le> \<lfloor>x\<rfloor>" using assms(1) by simp
  have "\<lfloor>x\<rfloor> \<le> 2 ^ 52" using assms(2) by (simp add: floor_le_iff)
  then have "\<bar>\<lfloor>x\<rfloor>\<bar> < 2 ^ 53" using f by simp
  then have a: "fl (of_int \<lfloor>x\<rfloor>) = of_int \<lfloor>x\<rfloor>" by (rule fl_of_int)
  have "fl (of_int \<lfloor>x\<rfloor>) \<le> fl x" by (intro fl_mono) simp
  then show "of_int \<lfloor>x\<rfloor> \<le> fl x" by (simp only: a)
  have c0: "0 \<le> \<lceil>x\<rceil>" using assms(1) by simp
  have "\<lceil>x\<rceil> \<le> 2 ^ 52" using assms(2) by (simp add: ceiling_le_iff)
  then have "\<bar>\<lceil>x\<rceil>\<bar> < 2 ^ 53" using c0 by simp
  then have b: "fl (of_int \<lceil>x\<rceil>) = of_int \<lceil>x\<rceil>" by (rule fl_of_int)
  have "fl x \<le> fl (of_int \<lceil>x\<rceil>)" by (intro fl_mono) simp
  then show "fl x \<le> of_int \<lceil>x\<rceil>" by (simp only: b)
qed


lemma two_powr_nat: "(2::real) powr of_int (int n) = 2 ^ n"
  by (simp add: powr_realpow)

lemma two_powr_neg_nat: "(2::real) powr of_int (- int n) = 1 / 2 ^ n"
proof -
  have "(2::real) powr of_int (- int n) = 2 powr (- real n)" by simp
  also have "\<dots> = inverse (2 powr real n)" by (rule powr_minus)
  also have "\<dots> = 1 / 2 ^ n" by (simp add: powr_realpow inverse_eq_divide)
  finally show ?thesis .
qed

lemma fl_binade_up:
  assumes "2 ^ n \<le> \<bar>x\<bar>" "\<bar>x\<bar> < 2 * 2 ^ n" "n \<le> 52"
  shows "fl x = of_int (round_even (x * 2 ^ (52 - n))) / 2 ^ (52 - n)"
proof -
  have a: "2 powr of_int (int n) \<le> \<bar>x\<bar>" using assms(1) by (simp only: two_powr_nat)
  have "(2::real) powr (of_int (int n) + 1) = 2 powr of_int (int n) * 2 powr 1"
    by (rule powr_add)
  also have "\<dots> = 2 * 2 ^ n" by (simp add: powr_realpow)
  finally have b: "\<bar>x\<bar> < 2 powr (of_int (int n) + 1)" using assms(2) by (simp only:)
  have c: "- 1022 \<le> int n" by simp
  have "real_of_int (int n) - 52 = real_of_int (- int (52 - n))" using assms(3) by simp
  then have u: "(2::real) powr (of_int (int n) - 52) = 1 / 2 ^ (52 - n)"
    by (simp only: two_powr_neg_nat)
  have "fl x = of_int (round_even (x / (1 / 2 ^ (52 - n)))) * (1 / 2 ^ (52 - n))"
    unfolding fl_eval [OF a b c] u ..
  also have "x / (1 / 2 ^ (52 - n)) = x * 2 ^ (52 - n)" by simp
  finally show ?thesis by simp
qed

lemma fl_binade_down:
  assumes "1 / 2 ^ n \<le> \<bar>x\<bar>" "\<bar>x\<bar> < 2 / 2 ^ n" "n \<le> 1022"
  shows "fl x = of_int (round_even (x * 2 ^ (n + 52))) / 2 ^ (n + 52)"
proof -
  have a: "2 powr of_int (- int n) \<le> \<bar>x\<bar>" using assms(1) by (simp only: two_powr_neg_nat)
  have "(2::real) powr (of_int (- int n) + 1) = 2 powr of_int (- int n) * 2 powr 1"
    by (rule powr_add)
  also have "\<dots> = 2 / 2 ^ n" by (simp only: two_powr_neg_nat) simp
  finally have b: "\<bar>x\<bar> < 2 powr (of_int (- int n) + 1)" using assms(2) by (simp only:)
  have c: "- 1022 \<le> - int n" using assms(3) by simp
  have "real_of_int (- int n) - 52 = real_of_int (- int (n + 52))" by simp
  then have u: "(2::real) powr (of_int (- int n) - 52) = 1 / 2 ^ (n + 52)"
    by (simp only: two_powr_neg_nat)
  have "fl x = of_int (round_even (x / (1 / 2 ^ (n + 52)))) * (1 / 2 ^ (n + 52))"
    unfolding fl_eval [OF a b c] u ..
  also have "x / (1 / 2 ^ (n + 52)) = x * 2 ^ (n + 52)" by simp
  finally show ?thesis by simp
qed

lemmas fl_binades =
  fl_zero
  fl_binade_up [where n = 0] fl_binade_up [where n = 1] fl_binade_up [where n = 2]
  fl_binade_up [where n = 3] fl_binade_up [where n = 4] fl_binade_up [where n = 5]
  fl_binade_up [where n = 6]
  fl_binade_down [where n = 1] fl_binade_down [where n = 2] fl_binade_down [where n = 3]

subsection \<open>Median and spread\<close>

lemma sort_Nil_iff: "sort xs = [] \<longleftrightarrow> xs = []"
  by (metis length_sort length_0_conv)



lemma median_nonneg:
  assumes "median xs = Some d" and "\<forall>x \<in> set xs. 0 \<le> x"
  shows "0 \<le> d"
proof -
  let ?ys = "sort xs"
  let ?n = "length ?ys"
  have n: "?n \<noteq> 0" using assms(1) by (auto simp: median_def Let_def split: if_splits)
  have el: "\<And>i. i < ?n \<Longrightarrow> 0 \<le> ?ys ! i"
  proof -
    fix i assume "i < ?n"
    then have "?ys ! i \<in> set ?ys" by (rule nth_mem)
    then show "0 \<le> ?ys ! i" using assms(2) by simp
  qed
  have a: "0 \<le> ?ys ! (?n div 2)" using n by (intro el) simp
  have b: "0 \<le> ?ys ! (?n div 2 - 1)" using n by (intro el) (simp add: less_imp_diff_less)
  have "0 \<le> fl (?ys ! (?n div 2 - 1) + ?ys ! (?n div 2))" using a b by (intro fl_nonneg) simp
  then have c: "0 \<le> fl (fl (?ys ! (?n div 2 - 1) + ?ys ! (?n div 2)) / 2)"
    by (intro fl_nonneg) simp
  show ?thesis
  proof (cases "odd ?n")
    case True
    then have "d = ?ys ! (?n div 2)"
      using assms(1) n unfolding median_def Let_def by (simp split: if_splits)
    then show ?thesis using a by simp
  next
    case False
    then have "d = fl (fl (?ys ! (?n div 2 - 1) + ?ys ! (?n div 2)) / 2)"
      using assms(1) n unfolding median_def Let_def by (simp split: if_splits)
    then show ?thesis using c by simp
  qed
qed

lemma mad_nonneg: "median (map (\<lambda>v. \<bar>fl (v - m)\<bar>) xs) = Some d \<Longrightarrow> 0 \<le> d"
  by (rule median_nonneg) auto

lemma fl_floor_pos: "0 < fl (1 / 10 ^ 9)"
  by (simp add: fl_binade_down [where n = 30] round_even_def)

lemma fl_const_nonneg: "0 \<le> fl 1.4826"
  by (rule fl_nonneg) simp

lemma spc_fields:
  "spc_bounds satv k = Some r \<Longrightarrow>
     lo r = fl (med r - fl (fl k * sigma r)) \<and> hi r = fl (med r + fl (fl k * sigma r)) \<and>
     out r = map (\<lambda>v. v < lo r \<or> v > hi r) (map fl satv)"
  by (auto simp: spc_bounds_def Let_def split: option.splits)

lemma spc_sigma_nonneg:
  assumes "spc_bounds satv k = Some r"
  shows "0 \<le> sigma r"
proof -
  obtain m d where d: "median (map (\<lambda>v. \<bar>fl (v - m)\<bar>) (map fl satv)) = Some d"
    and s: "sigma r = fl (fl 1.4826 * (if d = 0 then fl (1 / 10 ^ 9) else d))"
    using assms by (auto simp: spc_bounds_def Let_def split: option.splits)
  have "0 \<le> d" using d by (rule mad_nonneg)
  then have "0 \<le> (if d = 0 then fl (1 / 10 ^ 9) else d)" using fl_floor_pos by simp
  then have "0 \<le> fl 1.4826 * (if d = 0 then fl (1 / 10 ^ 9) else d)"
    using fl_const_nonneg by (rule mult_nonneg_nonneg [rotated])
  then show ?thesis unfolding s by (rule fl_nonneg)
qed

lemma spc_center_spread_fixed:
  "spc_bounds satv k1 = Some r1 \<Longrightarrow> spc_bounds satv k2 = Some r2 \<Longrightarrow>
     med r1 = med r2 \<and> sigma r1 = sigma r2"
  by (auto simp: spc_bounds_def Let_def split: option.splits)

lemma spc_defined_all_k:
  "spc_bounds satv k1 = None \<Longrightarrow> spc_bounds satv k2 = None"
  by (auto simp: spc_bounds_def Let_def split: option.splits)

lemma length_filter_mono:
  "(\<And>x. x \<in> set xs \<Longrightarrow> P x \<Longrightarrow> Q x) \<Longrightarrow> length (filter P xs) \<le> length (filter Q xs)"
  by (induction xs) auto

subsection \<open>C2: the SPC bounds computation\<close>







subsection \<open>C6: the flagged count against the multiplier\<close>

text \<open>
  C6 as stated (the flagged count never decreases as the multiplier grows) fails: on the
  residual series \<open>[0, 1, 2, 3, 6]\<close> the multiplier 2 flags one sample and the
  multiplier 5 flags none.
\<close>

lemma spc_example_2: "spc_bounds [0, 1, 2, 3, 6] 2 =
    Some \<lparr>med = 2, mad = 1, sigma = 6677036807539497 / 4503599627370496,
          lo = - (2173437180169001 / 2251799813685248),
          hi = 1397579554363749 / 281474976710656,
          out = [False, False, False, False, True]\<rparr>"
proof -
  have s1: "map fl [0, 1, 2, 3, 6] = [0, 1, 2, 3, 6]"
    by (simp add: fl_binades round_even_def)
  have s2: "median [0, 1, 2, 3, 6] = Some 2"
    by (simp add: median_def)
  have s3: "map (\<lambda>v. \<bar>fl (v - 2)\<bar>) [0, 1, 2, 3, 6] = [2, 1, 0, 1, 4]"
    by (simp add: fl_binades round_even_def)
  have s4: "median [2, 1, 0, 1, 4] = Some 1"
    by (simp add: median_def)
  have s4': "(if (1::real) = 0 then fl (1 / 10 ^ 9) else 1) = 1"
    by simp
  have s5: "fl (fl 1.4826 * 1) = 6677036807539497 / 4503599627370496"
    by (simp add: fl_binades round_even_def)
  have s6: "fl 2 = 2"
    by (simp add: fl_binades round_even_def)
  have s7: "fl (2 * (6677036807539497 / 4503599627370496)) = 6677036807539497 / 2251799813685248"
    by (simp add: fl_binades round_even_def)
  have s8: "fl (2 - 6677036807539497 / 2251799813685248) = - (2173437180169001 / 2251799813685248)"
    by (simp add: fl_binades round_even_def)
  have s9: "fl (2 + 6677036807539497 / 2251799813685248) = 1397579554363749 / 281474976710656"
    by (simp add: fl_binades round_even_def)
  show ?thesis
    unfolding spc_bounds_def Let_def s1 s2 option.case s3 s4 s4' s5 s6 s7 s8 s9 by simp
qed

lemma spc_example_5: "spc_bounds [0, 1, 2, 3, 6] 5 =
    Some \<lparr>med = 2, mad = 1, sigma = 6677036807539497 / 4503599627370496,
          lo = - (6094496195739123 / 1125899906842624),
          hi = 2649523955777405 / 281474976710656,
          out = [False, False, False, False, False]\<rparr>"
proof -
  have s1: "map fl [0, 1, 2, 3, 6] = [0, 1, 2, 3, 6]"
    by (simp add: fl_binades round_even_def)
  have s2: "median [0, 1, 2, 3, 6] = Some 2"
    by (simp add: median_def)
  have s3: "map (\<lambda>v. \<bar>fl (v - 2)\<bar>) [0, 1, 2, 3, 6] = [2, 1, 0, 1, 4]"
    by (simp add: fl_binades round_even_def)
  have s4: "median [2, 1, 0, 1, 4] = Some 1"
    by (simp add: median_def)
  have s4': "(if (1::real) = 0 then fl (1 / 10 ^ 9) else 1) = 1"
    by simp
  have s5: "fl (fl 1.4826 * 1) = 6677036807539497 / 4503599627370496"
    by (simp add: fl_binades round_even_def)
  have s6: "fl 5 = 5"
    by (simp add: fl_binades round_even_def)
  have s7: "fl (5 * (6677036807539497 / 4503599627370496)) = 8346296009424371 / 1125899906842624"
    by (simp add: fl_binades round_even_def)
  have s8: "fl (2 - 8346296009424371 / 1125899906842624) = - (6094496195739123 / 1125899906842624)"
    by (simp add: fl_binades round_even_def)
  have s9: "fl (2 + 8346296009424371 / 1125899906842624) = 2649523955777405 / 281474976710656"
    by (simp add: fl_binades round_even_def)
  show ?thesis
    unfolding spc_bounds_def Let_def s1 s2 option.case s3 s4 s4' s5 s6 s7 s8 s9 by simp
qed

theorem spc_monotone_counterexample:
  "(2::real) \<le> 5 \<and> flaggedCount [0, 1, 2, 3, 6] 2 = 1 \<and> flaggedCount [0, 1, 2, 3, 6] 5 = 0
     \<and> \<not> flaggedCount [0, 1, 2, 3, 6] 2 \<le> flaggedCount [0, 1, 2, 3, 6] 5"
  by (simp add: flaggedCount_def spc_example_2 spc_example_5)

text \<open>
  C6, amended. For a fixed residual series the number of flagged samples never increases
  as the multiplier grows: \<open>k1 \<le> k2\<close> gives
  \<open>flaggedCount series k2 \<le> flaggedCount series k1\<close>.
\<close>

theorem spc_flagged_antimono:
  assumes "k1 \<le> k2"
  shows "flaggedCount satv k2 \<le> flaggedCount satv k1"
proof (cases "spc_bounds satv k1")
  case None
  then have "spc_bounds satv k2 = None" by (rule spc_defined_all_k)
  with None show ?thesis by (simp add: flaggedCount_def)
next
  case (Some r1)
  show ?thesis
  proof (cases "spc_bounds satv k2")
    case None
    then show ?thesis by (simp add: flaggedCount_def)
  next
    case (Some r2)
    note r1 = \<open>spc_bounds satv k1 = Some r1\<close>
    have eq: "med r1 = med r2" "sigma r1 = sigma r2"
      using spc_center_spread_fixed [OF r1 Some] by simp_all
    have sg: "0 \<le> sigma r2" using Some by (rule spc_sigma_nonneg)
    have "fl k1 \<le> fl k2" using assms by (rule fl_mono)
    then have "fl k1 * sigma r2 \<le> fl k2 * sigma r2"
      using sg by (rule mult_right_mono)
    then have le: "fl (fl k1 * sigma r2) \<le> fl (fl k2 * sigma r2)" by (rule fl_mono)
    define xs where "xs = map fl satv"
    have f1: "lo r1 = fl (med r2 - fl (fl k1 * sigma r2))"
      "hi r1 = fl (med r2 + fl (fl k1 * sigma r2))"
      "out r1 = map (\<lambda>v. v < lo r1 \<or> v > hi r1) xs"
      using spc_fields [OF r1] eq by (simp_all add: xs_def)
    have f2: "lo r2 = fl (med r2 - fl (fl k2 * sigma r2))"
      "hi r2 = fl (med r2 + fl (fl k2 * sigma r2))"
      "out r2 = map (\<lambda>v. v < lo r2 \<or> v > hi r2) xs"
      using spc_fields [OF Some] by (simp_all add: xs_def)
    have lo_le: "lo r2 \<le> lo r1" unfolding f1(1) f2(1) using le by (intro fl_mono) simp
    have hi_le: "hi r1 \<le> hi r2" unfolding f1(2) f2(2) using le by (intro fl_mono) simp
    have c1: "length (filter (\<lambda>b. b) (out r1)) = length (filter (\<lambda>v. v < lo r1 \<or> v > hi r1) xs)"
      by (subst f1(3)) (simp add: filter_map comp_def)
    have c2: "length (filter (\<lambda>b. b) (out r2)) = length (filter (\<lambda>v. v < lo r2 \<or> v > hi r2) xs)"
      by (subst f2(3)) (simp add: filter_map comp_def)
    have "length (filter (\<lambda>v. v < lo r2 \<or> v > hi r2) xs)
            \<le> length (filter (\<lambda>v. v < lo r1 \<or> v > hi r1) xs)"
    proof (rule length_filter_mono)
      fix x assume "x < lo r2 \<or> hi r2 < x"
      then show "x < lo r1 \<or> hi r1 < x"
        using lo_le hi_le by auto
    qed
    then show ?thesis
      using r1 Some c1 c2 by (simp add: flaggedCount_def)
  qed
qed

theorem spc_flagged_antimono_witness:
  "(2::real) \<le> 5 \<and> flaggedCount [0, 1, 2, 3, 6] 5 \<le> flaggedCount [0, 1, 2, 3, 6] 2"
proof -
  have h: "(2::real) \<le> 5" by simp
  show ?thesis using h spc_flagged_antimono [OF h, of "[0, 1, 2, 3, 6]"] by simp
qed

subsection \<open>Shapes of the transforms\<close>

lemma length_dct [simp]: "length (dct x) = length x"
  by (simp add: dct_def Let_def)

lemma length_idct [simp]: "length (idct y) = length y"
  by (simp add: idct_def Let_def)

lemma length_zero_prefix [simp]: "length (zero_prefix m x) = length x"
  by (simp add: zero_prefix_def)

lemma nth_zero_prefix: "i < length x \<Longrightarrow> zero_prefix m x ! i = (if i < m then 0 else x ! i)"
  by (auto simp: zero_prefix_def nth_append)

subsection \<open>C9: the inputs stay unchanged\<close>

lemma satv_run_frame:
  assumes "s < length (arrays st)" and "arrays st ! s \<noteq> []"
  shows "\<exists>st' p. satv_run st s f = Some (st', p)
           \<and> (\<forall>a < length (arrays st). arrays st' ! a = arrays st ! a)
           \<and> series st' = series st
           \<and> p = Suc (length (arrays st))
           \<and> satv_filter (arrays st ! s) f = Some (arrays st' ! p)"
proof -
  define n where "n = length (arrays st)"
  define x where "x = dct (arrays st ! s)"
  define x' where "x' = zero_prefix (nat (max 1 (cutoff x f))) x"
  define st' where "st' = st\<lparr>arrays := arrays st @ [x', idct x']\<rparr>"
  have run: "satv_run st s f = Some (st', Suc n)"
    using assms
    by (simp add: satv_run_def new_array_def Let_def st'_def x'_def x_def n_def
        list_update_append nth_append)
  have old: "\<forall>a < length (arrays st). arrays st' ! a = arrays st ! a"
    by (simp add: st'_def nth_append)
  have ser: "series st' = series st" by (simp add: st'_def)
  have res: "arrays st' ! Suc n = idct x'"
    by (simp add: st'_def n_def nth_append)
  have pure: "satv_filter (arrays st ! s) f = Some (idct x')"
    using assms(2) by (simp add: satv_filter_def satv_coeffs_def Let_def x'_def x_def)
  show ?thesis using run old ser res pure by (simp add: n_def)
qed

lemma lof_run_frame:
  assumes "lof_run fp st col k c = Some (st', out2)"
  shows "series st' = series st
       \<and> (\<forall>a < length (arrays st). arrays st' ! a = arrays st ! a)
       \<and> lof_detect fp (series st ! col) k c = Some out2"
  using assms
  by (auto simp: lof_run_def lof_detect_def new_array_def Let_def nth_append
      split: if_splits option.splits)

text \<open>
  C9. Neither pipeline changes its input. The SATV and SPC lines, run on a store whose
  cell \<open>s\<close> is a non-empty array, return a store in which that cell and every other cell
  present before hold what they held, the pandas columns are unchanged, and the cell of
  the result holds the residual of the pure filter: the slice assignment hits only the
  array that the transform returned. The LOF lines, whenever they return, leave every
  column and every array present before unchanged and return the flags of the pure
  detector.
\<close>

theorem pipelines_preserve_inputs:
  "(s < length (arrays st) \<longrightarrow> arrays st ! s \<noteq> [] \<longrightarrow>
      (\<exists>st' p. satv_spc_run st s f k_sigma = Some (st', p, spc_bounds (arrays st' ! p) k_sigma)
         \<and> arrays st' ! s = arrays st ! s
         \<and> (\<forall>a < length (arrays st). arrays st' ! a = arrays st ! a)
         \<and> series st' = series st
         \<and> satv_filter (arrays st ! s) f = Some (arrays st' ! p)))
   \<and> (\<forall>st' out2. lof_run fit_predict st col n_neighbors c = Some (st', out2) \<longrightarrow>
         series st' = series st
         \<and> (\<forall>a < length (arrays st). arrays st' ! a = arrays st ! a)
         \<and> lof_detect fit_predict (series st ! col) n_neighbors c = Some out2)"
proof (rule conjI)
  show "s < length (arrays st) \<longrightarrow> arrays st ! s \<noteq> [] \<longrightarrow>
      (\<exists>st' p. satv_spc_run st s f k_sigma = Some (st', p, spc_bounds (arrays st' ! p) k_sigma)
         \<and> arrays st' ! s = arrays st ! s
         \<and> (\<forall>a < length (arrays st). arrays st' ! a = arrays st ! a)
         \<and> series st' = series st
         \<and> satv_filter (arrays st ! s) f = Some (arrays st' ! p))"
  proof (intro impI)
    assume a: "s < length (arrays st)" and b: "arrays st ! s \<noteq> []"
    obtain st' p where r: "satv_run st s f = Some (st', p)"
        "\<forall>a < length (arrays st). arrays st' ! a = arrays st ! a"
        "series st' = series st"
        "satv_filter (arrays st ! s) f = Some (arrays st' ! p)"
      using satv_run_frame [OF a b, of f] by blast
    have "satv_spc_run st s f k_sigma = Some (st', p, spc_bounds (arrays st' ! p) k_sigma)"
      by (simp add: satv_spc_run_def r(1))
    moreover have "arrays st' ! s = arrays st ! s" using r(2) a by simp
    ultimately show "\<exists>st' p. satv_spc_run st s f k_sigma = Some (st', p, spc_bounds (arrays st' ! p) k_sigma)
           \<and> arrays st' ! s = arrays st ! s
           \<and> (\<forall>a < length (arrays st). arrays st' ! a = arrays st ! a)
           \<and> series st' = series st
           \<and> satv_filter (arrays st ! s) f = Some (arrays st' ! p)"
      using r(2,3,4) by blast
  qed
next
  show "\<forall>st' out2. lof_run fit_predict st col n_neighbors c = Some (st', out2) \<longrightarrow>
         series st' = series st
         \<and> (\<forall>a < length (arrays st). arrays st' ! a = arrays st ! a)
         \<and> lof_detect fit_predict (series st ! col) n_neighbors c = Some out2"
    by (intro allI impI) (rule lof_run_frame)
qed

lemma lof_run_example:
  "lof_run (\<lambda>n c z. Some (map (\<lambda>v. if 10 < v then - 1 else 1) z)) \<lparr>series = [[Some 1, None, Some 50]], arrays = [[3, 4]]\<rparr> 0 35 0.01 = Some (\<lparr>series = [[Some 1, None, Some 50]], arrays = [[3, 4], [1, 0, 50]]\<rparr>, [False, False, True])"
  by (simp add: lof_run_def new_array_def fillna_def nn_def Let_def)

theorem pipelines_preserve_inputs_witness:
  "(0::nat) < length (arrays \<lparr>series = [[Some 1, None, Some 50]], arrays = [[3, 4]]\<rparr>)
   \<and> arrays \<lparr>series = [[Some 1, None, Some 50]], arrays = [[3, 4]]\<rparr> ! 0 \<noteq> []
   \<and> (\<exists>st' p. satv_spc_run \<lparr>series = [[Some 1, None, Some 50]], arrays = [[3, 4]]\<rparr> 0 0.05 3.5 = Some (st', p, spc_bounds (arrays st' ! p) 3.5)
         \<and> arrays st' ! 0 = arrays \<lparr>series = [[Some 1, None, Some 50]], arrays = [[3, 4]]\<rparr> ! 0
         \<and> (\<forall>a < length (arrays \<lparr>series = [[Some 1, None, Some 50]], arrays = [[3, 4]]\<rparr>). arrays st' ! a = arrays \<lparr>series = [[Some 1, None, Some 50]], arrays = [[3, 4]]\<rparr> ! a)
         \<and> series st' = series \<lparr>series = [[Some 1, None, Some 50]], arrays = [[3, 4]]\<rparr>
         \<and> satv_filter (arrays \<lparr>series = [[Some 1, None, Some 50]], arrays = [[3, 4]]\<rparr> ! 0) 0.05 = Some (arrays st' ! p))
   \<and> lof_run (\<lambda>n c z. Some (map (\<lambda>v. if 10 < v then - 1 else 1) z)) \<lparr>series = [[Some 1, None, Some 50]], arrays = [[3, 4]]\<rparr> 0 35 0.01 = Some (\<lparr>series = [[Some 1, None, Some 50]], arrays = [[3, 4], [1, 0, 50]]\<rparr>, [False, False, True])
   \<and> series \<lparr>series = [[Some 1, None, Some 50]], arrays = [[3, 4], [1, 0, 50]]\<rparr> = series \<lparr>series = [[Some 1, None, Some 50]], arrays = [[3, 4]]\<rparr>
   \<and> arrays \<lparr>series = [[Some 1, None, Some 50]], arrays = [[3, 4], [1, 0, 50]]\<rparr> ! 0 = arrays \<lparr>series = [[Some 1, None, Some 50]], arrays = [[3, 4]]\<rparr> ! 0
   \<and> lof_detect (\<lambda>n c z. Some (map (\<lambda>v. if 10 < v then - 1 else 1) z)) (series \<lparr>series = [[Some 1, None, Some 50]], arrays = [[3, 4]]\<rparr> ! 0) 35 0.01 = Some [False, False, True]"
proof -
  have h1: "(0::nat) < length (arrays \<lparr>series = [[Some 1, None, Some 50]], arrays = [[3, 4]]\<rparr>)" by simp
  have h2: "arrays \<lparr>series = [[Some 1, None, Some 50]], arrays = [[3, 4]]\<rparr> ! 0 \<noteq> []" by simp
  note t = pipelines_preserve_inputs [of 0 "\<lparr>series = [[Some 1, None, Some 50]], arrays = [[3, 4]]\<rparr>" "0.05" "3.5" "(\<lambda>n c z. Some (map (\<lambda>v. if 10 < v then - 1 else 1) z))" 0 35 "0.01"]
  have A: "(\<exists>st' p. satv_spc_run \<lparr>series = [[Some 1, None, Some 50]], arrays = [[3, 4]]\<rparr> 0 0.05 3.5 = Some (st', p, spc_bounds (arrays st' ! p) 3.5)
         \<and> arrays st' ! 0 = arrays \<lparr>series = [[Some 1, None, Some 50]], arrays = [[3, 4]]\<rparr> ! 0
         \<and> (\<forall>a < length (arrays \<lparr>series = [[Some 1, None, Some 50]], arrays = [[3, 4]]\<rparr>). arrays st' ! a = arrays \<lparr>series = [[Some 1, None, Some 50]], arrays = [[3, 4]]\<rparr> ! a)
         \<and> series st' = series \<lparr>series = [[Some 1, None, Some 50]], arrays = [[3, 4]]\<rparr>
         \<and> satv_filter (arrays \<lparr>series = [[Some 1, None, Some 50]], arrays = [[3, 4]]\<rparr> ! 0) 0.05 = Some (arrays st' ! p))"
    by (rule t [THEN conjunct1, rule_format, OF h1 h2])
  have B: "(series \<lparr>series = [[Some 1, None, Some 50]], arrays = [[3, 4], [1, 0, 50]]\<rparr> = series \<lparr>series = [[Some 1, None, Some 50]], arrays = [[3, 4]]\<rparr>
         \<and> (\<forall>a < length (arrays \<lparr>series = [[Some 1, None, Some 50]], arrays = [[3, 4]]\<rparr>). arrays \<lparr>series = [[Some 1, None, Some 50]], arrays = [[3, 4], [1, 0, 50]]\<rparr> ! a = arrays \<lparr>series = [[Some 1, None, Some 50]], arrays = [[3, 4]]\<rparr> ! a)
         \<and> lof_detect (\<lambda>n c z. Some (map (\<lambda>v. if 10 < v then - 1 else 1) z)) (series \<lparr>series = [[Some 1, None, Some 50]], arrays = [[3, 4]]\<rparr> ! 0) 35 0.01 = Some [False, False, True])"
    by (rule t [THEN conjunct2, rule_format, OF lof_run_example])
  have B1: "series \<lparr>series = [[Some 1, None, Some 50]], arrays = [[3, 4], [1, 0, 50]]\<rparr> = series \<lparr>series = [[Some 1, None, Some 50]], arrays = [[3, 4]]\<rparr>"
    by (rule B [THEN conjunct1])
  have B2: "arrays \<lparr>series = [[Some 1, None, Some 50]], arrays = [[3, 4], [1, 0, 50]]\<rparr> ! 0 = arrays \<lparr>series = [[Some 1, None, Some 50]], arrays = [[3, 4]]\<rparr> ! 0"
    by (rule B [THEN conjunct2, THEN conjunct1, rule_format, OF h1])
  have B3: "lof_detect (\<lambda>n c z. Some (map (\<lambda>v. if 10 < v then - 1 else 1) z)) (series \<lparr>series = [[Some 1, None, Some 50]], arrays = [[3, 4]]\<rparr> ! 0) 35 0.01 = Some [False, False, True]"
    by (rule B [THEN conjunct2, THEN conjunct2])
  show ?thesis
    by (rule conjI [OF h1 conjI [OF h2 conjI [OF A conjI [OF lof_run_example conjI [OF B1 conjI [OF B2 B3]]]]]])
qed


subsection \<open>C10: missing values in the LOF features\<close>

text \<open>
  C10. The LOF lines replace each missing value of the column by \<open>0\<close> and keep every
  other value and the length: nothing is dropped or rejected. The estimator receives
  this filled array, and when it returns one label per sample the flag sequence has
  the length of the full input column.
\<close>

theorem lof_fillna_aligned:
  "length (fillna 0 col) = length col
   \<and> (\<forall>i < length col. fillna 0 col ! i = (case col ! i of None \<Rightarrow> 0 | Some v \<Rightarrow> v))
   \<and> lof_detect fit_predict col k c
       = map_option (map (\<lambda>l. l = - 1)) (fit_predict (nn k (length col)) c (fillna 0 col))
   \<and> (\<forall>labels. fit_predict (nn k (length col)) c (fillna 0 col) = Some labels \<longrightarrow>
         length labels = length col \<longrightarrow>
         (\<exists>out2. lof_detect fit_predict col k c = Some out2 \<and> length out2 = length col))"
  by (auto simp: fillna_def lof_detect_def Let_def split: option.splits)

theorem lof_fillna_aligned_witness:
  "fillna 0 [Some 1, None, Some (50::real)] = [1, 0, 50]
   \<and> (\<lambda>n c z. Some (map (\<lambda>v. if 10 < v then - 1 else 1) z)) (nn 35 (length [Some 1, None, Some (50::real)])) 0.01 (fillna 0 [Some 1, None, Some (50::real)]) = Some [1, 1, - 1]
   \<and> length [1, 1, - 1 :: int] = length [Some 1, None, Some (50::real)]
   \<and> (\<exists>out2. lof_detect (\<lambda>n c z. Some (map (\<lambda>v. if 10 < v then - 1 else 1) z)) [Some 1, None, Some (50::real)] 35 0.01 = Some out2 \<and> length out2 = length [Some 1, None, Some (50::real)])"
proof -
  have f: "fillna 0 [Some 1, None, Some (50::real)] = [1, 0, 50]" by (simp add: fillna_def)
  have h1: "(\<lambda>n c z. Some (map (\<lambda>v. if 10 < v then - 1 else 1) z)) (nn 35 (length [Some 1, None, Some (50::real)])) 0.01 (fillna 0 [Some 1, None, Some (50::real)]) = Some [1, 1, - 1]" by (simp add: fillna_def)
  have h2: "length [1, 1, - 1 :: int] = length [Some 1, None, Some (50::real)]" by simp
  note t = lof_fillna_aligned [of "[Some 1, None, Some (50::real)]" "(\<lambda>n c z. Some (map (\<lambda>v. if 10 < v then - 1 else 1) z))" 35 "0.01"]
  have c: "(\<exists>out2. lof_detect (\<lambda>n c z. Some (map (\<lambda>v. if 10 < v then - 1 else 1) z)) [Some 1, None, Some (50::real)] 35 0.01 = Some out2 \<and> length out2 = length [Some 1, None, Some (50::real)])"
    by (rule t [THEN conjunct2, THEN conjunct2, THEN conjunct2, rule_format, OF h1 h2])
  show ?thesis by (rule conjI [OF f conjI [OF h1 conjI [OF h2 c]]])
qed

end
